theory Spec2Isabelle
  imports Complex_Main "HOL-Library.Word"
begin

section \<open>Python values shared by the modules\<close>

text \<open>
  Bits and bases are the Python ints 0 and 1 that \<^verbatim>\<open>random.randint(0, 1)\<close> draws
  (\<^verbatim>\<open>prepare_qubits\<close>, and the receiver's basis choice). They are kept as numbers,
  since the sender compares its bit with the number parsed from a payload character.
\<close>

type_synonym bit = nat
type_synonym basis = nat

text \<open>
  The exceptions the two protocol roles raise and catch, with the fixed part of the message.
\<close>

datatype error =
    ValueError string
  | IndexError string
  | TypeError string
  | ConnectionAbortedError string

text \<open>
  \<^verbatim>\<open>str(n)\<close> of a non-negative int: its decimal digits. \<open>digit_char\<close> is only
  applied to numbers below ten.
\<close>

definition digit_char :: "nat \<Rightarrow> char" where
  "digit_char d = ''0123456789'' ! d"

function py_str :: "nat \<Rightarrow> string" where
  "py_str n = (if n < 10 then [digit_char n] else py_str (n div 10) @ [digit_char (n mod 10)])"
  by pat_completeness auto
termination
  by (relation "measure (\<lambda>n. n)") auto

declare py_str.simps [simp del]

text \<open>
  \<^verbatim>\<open>s[i]\<close> for an index \<open>i \<ge> 0\<close> (the loop counter of \<^verbatim>\<open>enumerate\<close>): past the end it
  raises IndexError.
\<close>

definition py_str_index :: "string \<Rightarrow> nat \<Rightarrow> error + char" where
  "py_str_index s i =
     (if i < length s then Inr (s ! i) else Inl (IndexError ''string index out of range''))"

text \<open>
  \<^verbatim>\<open>int(c)\<close> of a one-character string: the value of a decimal digit, ValueError
  for any other character (a sign or a blank alone is no literal).
\<close>

definition digit_table :: "(char \<times> nat) list" where
  "digit_table =
     [(CHR ''0'', 0), (CHR ''1'', 1), (CHR ''2'', 2), (CHR ''3'', 3), (CHR ''4'', 4),
      (CHR ''5'', 5), (CHR ''6'', 6), (CHR ''7'', 7), (CHR ''8'', 8), (CHR ''9'', 9)]"

definition py_int_char :: "char \<Rightarrow> error + nat" where
  "py_int_char c =
     (case map_of digit_table c of
        Some v \<Rightarrow> Inr v
      | None \<Rightarrow> Inl (ValueError ''invalid literal for int() with base 10''))"

text \<open>
  \<^verbatim>\<open>xs[i]\<close> on a list for any int \<open>i\<close>: a negative index counts from the end, and an
  index outside \<open>-len .. len-1\<close> raises IndexError.
\<close>

definition py_index :: "'a list \<Rightarrow> int \<Rightarrow> error + 'a" where
  "py_index xs i =
     (if 0 \<le> i \<and> i < int (length xs) then Inr (xs ! nat i)
      else if i < 0 \<and> - int (length xs) \<le> i then Inr (xs ! nat (int (length xs) + i))
      else Inl (IndexError ''list index out of range''))"

text \<open>\<^verbatim>\<open>xs[:k]\<close> for any int \<open>k\<close>: a negative bound drops \<open>-k\<close> elements from the end.\<close>

definition py_slice_to :: "'a list \<Rightarrow> int \<Rightarrow> 'a list" where
  "py_slice_to xs k = (if 0 \<le> k then take (nat k) xs else take (length xs - nat (- k)) xs)"


section \<open>utils.py\<close>

subsection \<open>derive\_seed\_from\_key\<close>

text \<open>\<^verbatim>\<open>int.from_bytes(bs, 'big')\<close>.\<close>

definition from_bytes_big :: "8 word list \<Rightarrow> nat" where
  "from_bytes_big bs = foldl (\<lambda>acc b. acc * 256 + unat b) 0 bs"

text \<open>\<^verbatim>\<open>"".join(map(str, key))\<close>.\<close>

definition key_str :: "bit list \<Rightarrow> string" where
  "key_str key = concat (map py_str key)"

text \<open>
  \<^verbatim>\<open>hashlib.sha256(s.encode()).digest()\<close> is the parameter \<open>sha256\<close>, and the value that
  \<^verbatim>\<open>random.randint(0, (1 << 32) - 1)\<close> draws from the global generator is the parameter
  \<open>fallback\<close>.
\<close>

definition derive_seed_from_key :: "(string \<Rightarrow> 8 word list) \<Rightarrow> nat \<Rightarrow> bit list \<Rightarrow> nat" where
  "derive_seed_from_key sha256 fallback key =
     (if key = [] \<or> length key < 8 then fallback
      else from_bytes_big (take 4 (sha256 (key_str key))))"

subsection \<open>generate\_hopping\_pattern\<close>

text \<open>
  The generator of the \<^verbatim>\<open>random\<close> module is a parameter: \<open>new_random seed\<close> is the state
  of \<^verbatim>\<open>random.Random(seed)\<close>, and \<open>randbelow g n\<close> the index that \<^verbatim>\<open>choice\<close> draws for a
  sequence of \<open>n\<close> elements, with the next state. \<^verbatim>\<open>choice(seq)\<close> is
  \<^verbatim>\<open>seq[self._randbelow(len(seq))]\<close>.
\<close>

fun choices :: "('g \<Rightarrow> nat \<Rightarrow> nat \<times> 'g) \<Rightarrow> 'g \<Rightarrow> 'a list \<Rightarrow> nat \<Rightarrow> 'a list" where
  "choices randbelow g frequencies 0 = []"
| "choices randbelow g frequencies (Suc n) =
     (case randbelow g (length frequencies) of
        (j, g') \<Rightarrow> (frequencies ! j) # choices randbelow g' frequencies n)"

text \<open>
  The state of the module's shared generator is threaded through as \<open>shared\<close>: the
  function gets it and hands it back, as any function that may call \<^verbatim>\<open>random.*\<close> does.
\<close>

definition generate_hopping_pattern ::
  "('s \<Rightarrow> 'g) \<Rightarrow> ('g \<Rightarrow> nat \<Rightarrow> nat \<times> 'g) \<Rightarrow> 'g \<Rightarrow> 's \<Rightarrow> int \<Rightarrow> 'a list \<Rightarrow> 'a list \<times> 'g" where
  "generate_hopping_pattern new_random randbelow shared seed len frequencies =
     (if frequencies = [] then ([], shared)
      else if len \<le> 0 then ([], shared)
      else (choices randbelow (new_random seed) frequencies (nat len), shared))"


section \<open>qkd\_sender.py\<close>

subsection \<open>Transmission with simulated loss (step b)\<close>

text \<open>
  What the sender keeps of the photons it sent: the original indices in sending order, the
  two dictionaries keyed by original index, and the photons written to the quantum channel
  (\<^verbatim>\<open>send_photon(basis, bit)\<close>), in order.
\<close>

record sender_tx =
  photons_sent_indices :: "nat list"
  sender_bits_sent :: "nat \<rightharpoonup> bit"
  sender_bases_sent :: "nat \<rightharpoonup> basis"
  quantum_out :: "(basis \<times> bit) list"

text \<open>
  One round of the sending loop; \<open>not_lost i\<close> is the outcome of
  \<^verbatim>\<open>random.random() >= args.loss_rate\<close> in round \<open>i\<close>.
\<close>

definition send_step ::
  "(nat \<Rightarrow> bool) \<Rightarrow> bit list \<Rightarrow> basis list \<Rightarrow> sender_tx \<Rightarrow> nat \<Rightarrow> sender_tx" where
  "send_step not_lost sender_bits_all sender_bases_all st i =
     (if not_lost i then
        st\<lparr>photons_sent_indices := photons_sent_indices st @ [i],
           sender_bits_sent := (sender_bits_sent st)(i \<mapsto> sender_bits_all ! i),
           sender_bases_sent := (sender_bases_sent st)(i \<mapsto> sender_bases_all ! i),
           quantum_out := quantum_out st @ [(sender_bases_all ! i, sender_bits_all ! i)]\<rparr>
      else st)"

definition tx_init :: sender_tx where
  "tx_init = \<lparr>photons_sent_indices = [], sender_bits_sent = Map.empty,
              sender_bases_sent = Map.empty, quantum_out = []\<rparr>"

text \<open>
  \<^verbatim>\<open>prepare_qubits(count)\<close> draws \<open>count\<close> bits and \<open>count\<close> bases; here they come as the
  list of the (bit, basis) pairs, so \<open>photons_to_attempt\<close> is its length.
\<close>

definition send_photons :: "(nat \<Rightarrow> bool) \<Rightarrow> (bit \<times> basis) list \<Rightarrow> sender_tx" where
  "send_photons not_lost qubits =
     foldl (send_step not_lost (map fst qubits) (map snd qubits)) tx_init [0..<length qubits]"

subsection \<open>Sifting (steps e and g)\<close>

definition bases_match :: "sender_tx \<Rightarrow> basis list \<Rightarrow> nat \<Rightarrow> bool" where
  "bases_match tx bob_bases_list j =
     (case sender_bases_sent tx (photons_sent_indices tx ! j) of
        Some alice_basis \<Rightarrow> alice_basis = bob_bases_list ! j
      | None \<Rightarrow> False)"

definition sift_local :: "sender_tx \<Rightarrow> basis list \<Rightarrow> nat list" where
  "sift_local tx bob_bases_list =
     filter (bases_match tx bob_bases_list)
       [0..<min (length bob_bases_list) (length (photons_sent_indices tx))]"

definition sender_key_bit :: "sender_tx \<Rightarrow> nat \<Rightarrow> bit option" where
  "sender_key_bit tx rel_idx =
     (if rel_idx < length (photons_sent_indices tx)
      then sender_bits_sent tx (photons_sent_indices tx ! rel_idx)
      else None)"

definition construct_sender_key :: "sender_tx \<Rightarrow> nat list \<Rightarrow> bit list" where
  "construct_sender_key tx match_indices_relative_to_bob =
     List.map_filter (sender_key_bit tx) match_indices_relative_to_bob"

subsection \<open>Proposing the verification sample (step h)\<close>

definition choose_check_len :: "bit list \<Rightarrow> int \<Rightarrow> error + int" where
  "choose_check_len sifted_sender_key key_length =
     (if sifted_sender_key = []
      then Inl (ValueError ''No matching bases found after sifting. Cannot perform QBER check.'')
      else
        let n = int (length sifted_sender_key);
            check_len = max 1 (min (n div 4) (key_length * 2));
            check_len = (if n \<le> check_len then max 1 (n div 2) else check_len)
        in if n \<le> check_len then Inl (ValueError ''Insufficient sifted bits for QBER check.'')
           else Inr check_len)"

text \<open>
  \<open>random_sample n k\<close> is the list that \<^verbatim>\<open>random.sample(range(n), k)\<close> returns.
\<close>

definition propose_verification ::
  "(nat \<Rightarrow> nat \<Rightarrow> nat list) \<Rightarrow> bit list \<Rightarrow> int \<Rightarrow> error + nat list" where
  "propose_verification random_sample sifted_sender_key key_length =
     (case choose_check_len sifted_sender_key key_length of
        Inl e \<Rightarrow> Inl e
      | Inr check_len \<Rightarrow>
          Inr (sort (random_sample (length sifted_sender_key) (nat check_len))))"

subsection \<open>Receiving the check bits (step i)\<close>

text \<open>
  \<^verbatim>\<open>public_ch.receive()\<close> returns a pair \<open>(data_type, content)\<close>, \<open>(None, None)\<close> when
  the peer is gone.
\<close>

definition await_check_bits :: "string option \<times> string \<Rightarrow> nat list \<Rightarrow> error + string" where
  "await_check_bits received check_indices_relative_sifted =
     (case received of
        (None, _) \<Rightarrow> Inl (ConnectionAbortedError ''disconnected (check bits)'')
      | (Some data_type, receiver_check_bits_str) \<Rightarrow>
          if data_type = [] then Inl (ConnectionAbortedError ''disconnected (check bits)'')
          else if data_type = ''ABORT'' then Inl (ValueError ''aborted'')
          else if data_type \<noteq> ''CHECK_BITS'' then Inl (TypeError ''Expected CHECK_BITS'')
          else if length receiver_check_bits_str \<noteq> length check_indices_relative_sifted
          then Inl (ValueError ''Check bits length mismatch'')
          else Inr receiver_check_bits_str)"

subsection \<open>Counting the mismatches (step j)\<close>

text \<open>The body of the \<^verbatim>\<open>try\<close>: what is added to \<open>mismatches\<close>, or the exception.\<close>

definition compare_check_bit :: "bit \<Rightarrow> string \<Rightarrow> nat \<Rightarrow> error + nat" where
  "compare_check_bit alice_bit_at_check receiver_check_bits_str i =
     (case py_str_index receiver_check_bits_str i of
        Inl e \<Rightarrow> Inl e
      | Inr c \<Rightarrow>
          (case py_int_char c of
             Inl e \<Rightarrow> Inl e
           | Inr bob_bit_at_check \<Rightarrow>
               Inr (if alice_bit_at_check \<noteq> bob_bit_at_check then 1 else 0)))"

text \<open>
  One round of the loop, with its \<^verbatim>\<open>except (ValueError, IndexError)\<close>; any other
  exception would leave the loop.
\<close>

definition mismatch_step :: "bit list \<Rightarrow> string \<Rightarrow> nat \<times> nat \<Rightarrow> error + nat" where
  "mismatch_step sifted_sender_key receiver_check_bits_str p =
     (case p of (i, rel_sift_idx) \<Rightarrow>
        if rel_sift_idx < length sifted_sender_key then
          (case compare_check_bit (sifted_sender_key ! rel_sift_idx) receiver_check_bits_str i of
             Inr d \<Rightarrow> Inr d
           | Inl (ValueError _) \<Rightarrow> Inr 1
           | Inl (IndexError _) \<Rightarrow> Inr 1
           | Inl e \<Rightarrow> Inl e)
        else Inr 1)"

fun count_loop :: "bit list \<Rightarrow> string \<Rightarrow> (nat \<times> nat) list \<Rightarrow> nat \<Rightarrow> error + nat" where
  "count_loop sifted_sender_key receiver_check_bits_str [] mismatches = Inr mismatches"
| "count_loop sifted_sender_key receiver_check_bits_str (p # ps) mismatches =
     (case mismatch_step sifted_sender_key receiver_check_bits_str p of
        Inl e \<Rightarrow> Inl e
      | Inr d \<Rightarrow> count_loop sifted_sender_key receiver_check_bits_str ps (mismatches + d))"

definition count_mismatches :: "bit list \<Rightarrow> string \<Rightarrow> nat list \<Rightarrow> error + nat" where
  "count_mismatches sifted_sender_key receiver_check_bits_str check_indices_relative_sifted =
     count_loop sifted_sender_key receiver_check_bits_str
       (enumerate 0 check_indices_relative_sifted) 0"

subsection \<open>Decision and final key (steps k and l)\<close>

datatype qkd_status = Success | QBER_Fail | Key_Too_Short | Error error

text \<open>
  What a role leaves behind: the public messages it sent in the phase, the
  \<^verbatim>\<open>stats['status']\<close> entry, and the returned pair \<open>(qkd_seed, key)\<close>, \<open>None\<close> for
  \<^verbatim>\<open>return None, None\<close>.
\<close>

record outcome =
  sent :: "(string \<times> string) list"
  status :: qkd_status
  returned :: "(nat \<times> bit list) option"

definition sender_final_key_bits :: "bit list \<Rightarrow> nat list \<Rightarrow> bit list" where
  "sender_final_key_bits sifted_sender_key check_indices_relative_sifted =
     map (\<lambda>i. sifted_sender_key ! i)
       (filter (\<lambda>i. i \<notin> set check_indices_relative_sifted) [0..<length sifted_sender_key])"

definition sender_final_key ::
  "(string \<Rightarrow> 8 word list) \<Rightarrow> nat \<Rightarrow> bit list \<Rightarrow> nat list \<Rightarrow> int
     \<Rightarrow> qkd_status \<times> (nat \<times> bit list) option" where
  "sender_final_key sha256 fallback sifted_sender_key check_indices_relative_sifted key_length =
     (let final_key_bits = sender_final_key_bits sifted_sender_key check_indices_relative_sifted
      in if int (length final_key_bits) < key_length then (Key_Too_Short, None)
         else
           let sifted_sender_key_final = py_slice_to final_key_bits key_length
           in (Success,
               Some (derive_seed_from_key sha256 fallback sifted_sender_key_final,
                     sifted_sender_key_final)))"

text \<open>
  \<^verbatim>\<open>mismatches / len(check_indices_relative_sifted)\<close> is Python's true division of two
  ints, a float, compared with the float \<^verbatim>\<open>args.qber_threshold\<close>. The floats are any
  linearly ordered type \<open>'r\<close> and the division is the parameter \<open>fdiv\<close>, so nothing is
  assumed about rounding; \<open>0\<close> is the value of the \<^verbatim>\<open>else 0\<close>.
\<close>

definition qber_of :: "(nat \<Rightarrow> nat \<Rightarrow> 'r) \<Rightarrow> nat \<Rightarrow> nat list \<Rightarrow> 'r::{zero,linorder}" where
  "qber_of fdiv mismatches check_indices_relative_sifted =
     (if check_indices_relative_sifted \<noteq> []
      then fdiv mismatches (length check_indices_relative_sifted) else 0)"

definition sender_decide ::
  "(nat \<Rightarrow> nat \<Rightarrow> 'r) \<Rightarrow> 'r::{zero,linorder} \<Rightarrow> (string \<Rightarrow> 8 word list) \<Rightarrow> nat
     \<Rightarrow> bit list \<Rightarrow> nat list \<Rightarrow> int \<Rightarrow> string \<Rightarrow> error + outcome" where
  "sender_decide fdiv qber_threshold sha256 fallback sifted_sender_key
       check_indices_relative_sifted key_length receiver_check_bits_str =
     (case count_mismatches sifted_sender_key receiver_check_bits_str
             check_indices_relative_sifted of
        Inl e \<Rightarrow> Inl e
      | Inr mismatches \<Rightarrow>
          if qber_of fdiv mismatches check_indices_relative_sifted > qber_threshold
          then Inr \<lparr>sent = [(''ABORT'', ''QBER_HIGH'')], status = QBER_Fail, returned = None\<rparr>
          else
            (case sender_final_key sha256 fallback sifted_sender_key
                    check_indices_relative_sifted key_length of
               (st, r) \<Rightarrow> Inr \<lparr>sent = [(''CONFIRM_KEY'', ''OK'')], status = st, returned = r\<rparr>))"

text \<open>
  The handler of the role's \<^verbatim>\<open>try\<close>: the exception becomes the status, an ABORT is sent
  when the socket is still open (\<open>sock_open\<close>), and no key is returned.
\<close>

definition sender_handler :: "bool \<Rightarrow> error + outcome \<Rightarrow> outcome" where
  "sender_handler sock_open r =
     (case r of
        Inr out \<Rightarrow> out
      | Inl e \<Rightarrow>
          \<lparr>sent = (if sock_open then [(''ABORT'', ''Sender Error'')] else []),
           status = Error e, returned = None\<rparr>)"

text \<open>Steps i to l together, from the message received after CHECK\_INDICES\_REL\_SIFT.\<close>

definition sender_verification ::
  "(nat \<Rightarrow> nat \<Rightarrow> 'r) \<Rightarrow> 'r::{zero,linorder} \<Rightarrow> (string \<Rightarrow> 8 word list) \<Rightarrow> nat \<Rightarrow> bool
     \<Rightarrow> bit list \<Rightarrow> nat list \<Rightarrow> int \<Rightarrow> string option \<times> string \<Rightarrow> outcome" where
  "sender_verification fdiv qber_threshold sha256 fallback sock_open sifted_sender_key
       check_indices_relative_sifted key_length received =
     sender_handler sock_open
       (case await_check_bits received check_indices_relative_sifted of
          Inl e \<Rightarrow> Inl e
        | Inr receiver_check_bits_str \<Rightarrow>
            sender_decide fdiv qber_threshold sha256 fallback sifted_sender_key
              check_indices_relative_sifted key_length receiver_check_bits_str)"


section \<open>qkd\_receiver.py\<close>

subsection \<open>Measuring the photons (step a)\<close>

record photon_info =
  bob_basis :: basis
  measured_bit :: bit

text \<open>
  \<open>basis_choice\<close> and \<open>random_bit\<close> are the two values \<^verbatim>\<open>random.randint(0, 1)\<close> may
  draw for this photon.
\<close>

definition measure_photon :: "basis \<Rightarrow> bit \<Rightarrow> basis \<times> bit \<Rightarrow> photon_info" where
  "measure_photon basis_choice random_bit photon =
     (case photon of (s_basis, s_bit) \<Rightarrow>
        \<lparr>bob_basis = basis_choice,
         measured_bit = (if basis_choice = s_basis then s_bit else random_bit)\<rparr>)"

text \<open>
  The receiving loop over the photons that arrive; the draws for the photon received at
  position \<open>j\<close> are \<open>basis_choice j\<close> and \<open>random_bit j\<close>.
\<close>

fun receive_photons ::
  "(nat \<Rightarrow> basis) \<Rightarrow> (nat \<Rightarrow> bit) \<Rightarrow> (basis \<times> bit) list \<Rightarrow> photon_info list \<Rightarrow> photon_info list"
  where
  "receive_photons basis_choice random_bit [] received_photon_info = received_photon_info"
| "receive_photons basis_choice random_bit (photon # rest) received_photon_info =
     receive_photons basis_choice random_bit rest
       (received_photon_info @
          [measure_photon (basis_choice (length received_photon_info))
             (random_bit (length received_photon_info)) photon])"

subsection \<open>Sifted key from the relative indices (step e)\<close>

fun construct_receiver_key :: "photon_info list \<Rightarrow> int list \<Rightarrow> bit list \<Rightarrow> error + bit list" where
  "construct_receiver_key received_photon_info [] key = Inr key"
| "construct_receiver_key received_photon_info (rel_idx # rest) key =
     (if rel_idx < int (length received_photon_info) then
        (case py_index received_photon_info rel_idx of
           Inl e \<Rightarrow> Inl e
         | Inr info \<Rightarrow> construct_receiver_key received_photon_info rest (key @ [measured_bit info]))
      else Inl (IndexError ''Received relative match index out of bounds for received photons''))"

subsection \<open>Check bits (step g)\<close>

definition receiver_check_bits :: "bit list \<Rightarrow> int list \<Rightarrow> error + string" where
  "receiver_check_bits sifted_receiver_key indices_to_check_relative_sifted =
     (if indices_to_check_relative_sifted \<noteq> [] then
        if list_ex (\<lambda>i. i < 0 \<or> i \<ge> int (length sifted_receiver_key))
             indices_to_check_relative_sifted
        then Inl (IndexError ''Invalid check indices received'')
        else Inr (concat (map (\<lambda>i. py_str (sifted_receiver_key ! nat i))
                    indices_to_check_relative_sifted))
      else Inr [])"

subsection \<open>Final key (step i)\<close>

definition receiver_final_key_bits :: "bit list \<Rightarrow> int list \<Rightarrow> bit list" where
  "receiver_final_key_bits sifted_receiver_key indices_to_check_relative_sifted =
     map (\<lambda>i. sifted_receiver_key ! i)
       (filter (\<lambda>i. int i \<notin> set indices_to_check_relative_sifted)
          [0..<length sifted_receiver_key])"

definition receiver_final_key ::
  "(string \<Rightarrow> 8 word list) \<Rightarrow> nat \<Rightarrow> bit list \<Rightarrow> int list \<Rightarrow> int
     \<Rightarrow> qkd_status \<times> (nat \<times> bit list) option" where
  "receiver_final_key sha256 fallback sifted_receiver_key indices_to_check_relative_sifted
       key_length =
     (let final_key_bits =
            receiver_final_key_bits sifted_receiver_key indices_to_check_relative_sifted
      in if int (length final_key_bits) < key_length then (Key_Too_Short, None)
         else
           let sifted_receiver_key_final = py_slice_to final_key_bits key_length
           in (Success,
               Some (derive_seed_from_key sha256 fallback sifted_receiver_key_final,
                     sifted_receiver_key_final)))"


section \<open>Reference definitions for the comparison with the code\<close>

text \<open>
  The sizing of the verification sample as the specification words it: the size is
  \<open>max(1, min(sifted_len // 4, 2 * desired_key_length))\<close>; if the sample would not leave
  one unchecked bit it is shrunk to \<open>sifted_len // 2\<close>; if that still leaves no unchecked
  bit the sender aborts.
\<close>

definition spec_check_len :: "bit list \<Rightarrow> int \<Rightarrow> error + int" where
  "spec_check_len sifted key_length =
     (if sifted = []
      then Inl (ValueError ''No matching bases found after sifting. Cannot perform QBER check.'')
      else
        let n = int (length sifted);
            size1 = max 1 (min (n div 4) (2 * key_length));
            size2 = (if n \<le> size1 then n div 2 else size1)
        in if n \<le> size2 then Inl (ValueError ''Insufficient sifted bits for QBER check.'')
           else Inr size2)"

text \<open>
  When round \<open>(i, rel_sift_idx)\<close> of the mismatch loop counts a mismatch: the sampled
  index is outside the sifted key, the payload has no character at \<open>i\<close>, the character
  is no decimal digit, or its value differs from the sender's bit.
\<close>

definition counts_as_mismatch :: "bit list \<Rightarrow> string \<Rightarrow> nat \<times> nat \<Rightarrow> bool" where
  "counts_as_mismatch sifted payload p =
     (case p of (i, rel_sift_idx) \<Rightarrow>
        length sifted \<le> rel_sift_idx \<or> length payload \<le> i \<or>
        (case map_of digit_table (payload ! i) of
           None \<Rightarrow> True
         | Some v \<Rightarrow> sifted ! rel_sift_idx \<noteq> v))"


section \<open>Properties of utils.py\<close>

lemma py_str_0: "py_str 0 = ''0''"
  by (simp add: py_str.simps digit_char_def)

lemma py_str_1: "py_str (Suc 0) = ''1''"
  by (simp add: py_str.simps digit_char_def)

lemma choices_length: "length (choices randbelow g fs n) = n"
  by (induction n arbitrary: g) (auto split: prod.splits)

lemma choices_set:
  assumes "fs \<noteq> []" and "\<And>g n. 0 < n \<Longrightarrow> fst (randbelow g n) < n"
  shows "set (choices randbelow g fs n) \<subseteq> set fs"
proof (induction n arbitrary: g)
  case 0
  show ?case by simp
next
  case (Suc n)
  obtain j g' where jg: "randbelow g (length fs) = (j, g')"
    by (cases "randbelow g (length fs)")
  from assms have "fst (randbelow g (length fs)) < length fs" by simp
  with jg have "j < length fs" by simp
  moreover have "set (choices randbelow g' fs n) \<subseteq> set fs" by (rule Suc.IH)
  ultimately show ?case using jg by simp
qed

text \<open>
  C7. A key that is empty or shorter than 8 bits gives the random fallback. A key of at
  least 8 bits gives the first four bytes of the SHA-256 digest of its bits written as
  '0'/'1' characters, read as a big-endian unsigned integer; this value does not depend on
  the random draw, so two parties with the same key get the same seed whatever their
  generators hold.
\<close>

theorem derive_seed_from_key_spec:
  "(key = [] \<or> length key < 8 \<longrightarrow> derive_seed_from_key sha256 fallback key = fallback) \<and>
   (8 \<le> length key \<longrightarrow>
      derive_seed_from_key sha256 fallback key = from_bytes_big (take 4 (sha256 (key_str key))) \<and>
      derive_seed_from_key sha256 fallback key = derive_seed_from_key sha256 fallback' key)"
  by (auto simp: derive_seed_from_key_def)

theorem derive_seed_from_key_witness:
  "derive_seed_from_key (\<lambda>s. if s = ''10110010'' then [1, 2, 3, 4, 5] else [0, 0, 0, 0]) 7
     [1, 0, 1, 1, 0, 0, 1, 0] = 16909060 \<and>
   derive_seed_from_key (\<lambda>s. if s = ''10110010'' then [1, 2, 3, 4, 5] else [0, 0, 0, 0]) 9
     [1, 0, 1, 1, 0, 0, 1, 0] = 16909060 \<and>
   derive_seed_from_key (\<lambda>s. if s = ''10110010'' then [1, 2, 3, 4, 5] else [0, 0, 0, 0]) 7
     [1, 0, 1] = 7"
  using derive_seed_from_key_spec [of "[1, 0, 1, 1, 0, 0, 1, 0]"
      "\<lambda>s. if s = ''10110010'' then [1, 2, 3, 4, 5] else [0, 0, 0, 0]" 7 9]
    derive_seed_from_key_spec [of "[1, 0, 1]"
      "\<lambda>s. if s = ''10110010'' then [1, 2, 3, 4, 5] else [0, 0, 0, 0]" 7 7]
  by (simp add: key_str_def py_str_0 py_str_1 from_bytes_big_def)

text \<open>
  C8. Two calls of \<open>generate_hopping_pattern\<close> with the same seed, length and frequency
  list return the same pattern, whatever state the module's shared generator is in at
  either call, and the call leaves the shared generator as it found it: the pattern is
  drawn from the generator seeded with \<open>seed\<close> alone.
\<close>

theorem generate_hopping_pattern_deterministic:
  "fst (generate_hopping_pattern new_random randbelow shared seed len frequencies) =
     fst (generate_hopping_pattern new_random randbelow shared' seed len frequencies) \<and>
   snd (generate_hopping_pattern new_random randbelow shared seed len frequencies) = shared"
  by (simp add: generate_hopping_pattern_def)

text \<open>
  C9. The pattern is empty when the frequency list is empty or the length is not
  positive. Otherwise, with a generator whose \<open>randbelow g n\<close> is below \<open>n\<close> (the
  contract of \<^verbatim>\<open>Random._randbelow\<close>), it has exactly \<open>len\<close> elements and each of them is
  a member of the frequency list.
\<close>

theorem generate_hopping_pattern_shape:
  "(frequencies = [] \<or> len \<le> 0 \<longrightarrow>
      fst (generate_hopping_pattern new_random randbelow shared seed len frequencies) = []) \<and>
   (frequencies \<noteq> [] \<and> 0 < len \<and> (\<forall>g n. 0 < n \<longrightarrow> fst (randbelow g n) < n) \<longrightarrow>
      int (length (fst (generate_hopping_pattern new_random randbelow shared seed len
                          frequencies))) = len \<and>
      set (fst (generate_hopping_pattern new_random randbelow shared seed len frequencies))
        \<subseteq> set frequencies)"
proof (intro conjI impI)
  assume "frequencies = [] \<or> len \<le> 0"
  then show "fst (generate_hopping_pattern new_random randbelow shared seed len frequencies) = []"
    by (auto simp: generate_hopping_pattern_def)
next
  assume a: "frequencies \<noteq> [] \<and> 0 < len \<and> (\<forall>g n. 0 < n \<longrightarrow> fst (randbelow g n) < n)"
  then show "int (length (fst (generate_hopping_pattern new_random randbelow shared seed len
                          frequencies))) = len"
    by (simp add: generate_hopping_pattern_def choices_length)
next
  assume a: "frequencies \<noteq> [] \<and> 0 < len \<and> (\<forall>g n. 0 < n \<longrightarrow> fst (randbelow g n) < n)"
  then have "set (choices randbelow (new_random seed) frequencies (nat len)) \<subseteq> set frequencies"
    by (intro choices_set) auto
  with a show "set (fst (generate_hopping_pattern new_random randbelow shared seed len
                     frequencies)) \<subseteq> set frequencies"
    by (simp add: generate_hopping_pattern_def)
qed

theorem generate_hopping_pattern_shape_witness:
  "fst (generate_hopping_pattern (\<lambda>s::nat. s) (\<lambda>g n. (g mod n, g * 5 + 3)) (0::nat) 7 4
          [10, 20, 30 :: int]) = [20, 30, 20, 30] \<and>
   int (length (fst (generate_hopping_pattern (\<lambda>s::nat. s) (\<lambda>g n. (g mod n, g * 5 + 3))
          (0::nat) 7 4 [10, 20, 30 :: int]))) = 4 \<and>
   set (fst (generate_hopping_pattern (\<lambda>s::nat. s) (\<lambda>g n. (g mod n, g * 5 + 3)) (0::nat) 7 4
          [10, 20, 30 :: int])) \<subseteq> set [10, 20, 30] \<and>
   fst (generate_hopping_pattern (\<lambda>s::nat. s) (\<lambda>g n. (g mod n, g * 5 + 3)) (0::nat) 7 0
          [10, 20, 30 :: int]) = []"
proof -
  have h: "[10, 20, 30 :: int] \<noteq> [] \<and> (0::int) < 4 \<and>
      (\<forall>g n. 0 < n \<longrightarrow> fst ((\<lambda>(g::nat) n. (g mod n, g * 5 + 3)) g n) < n)"
    by simp
  have z: "[10, 20, 30 :: int] = [] \<or> (0::int) \<le> 0"
    by simp
  have v: "fst (generate_hopping_pattern (\<lambda>s::nat. s) (\<lambda>g n. (g mod n, g * 5 + 3)) (0::nat) 7 4
          [10, 20, 30 :: int]) = [20, 30, 20, 30]"
    by code_simp
  show ?thesis
    using generate_hopping_pattern_shape [of "[10, 20, 30 :: int]" 4 "\<lambda>s::nat. s"
        "\<lambda>g n. (g mod n, g * 5 + 3)" "0::nat" 7] h
      generate_hopping_pattern_shape [of "[10, 20, 30 :: int]" 0 "\<lambda>s::nat. s"
        "\<lambda>g n. (g mod n, g * 5 + 3)" "0::nat" 7] z v
    by blast
qed


section \<open>Properties of the sifting\<close>

lemma send_step_fields:
  "photons_sent_indices (send_step nl bits bases st i) =
     photons_sent_indices st @ (if nl i then [i] else [])"
  "quantum_out (send_step nl bits bases st i) =
     quantum_out st @ (if nl i then [(bases ! i, bits ! i)] else [])"
  "sender_bases_sent (send_step nl bits bases st i) =
     (if nl i then (sender_bases_sent st)(i \<mapsto> bases ! i) else sender_bases_sent st)"
  "sender_bits_sent (send_step nl bits bases st i) =
     (if nl i then (sender_bits_sent st)(i \<mapsto> bits ! i) else sender_bits_sent st)"
  by (simp_all add: send_step_def)

lemma foldl_send_step:
  "photons_sent_indices (foldl (send_step nl bits bases) st xs) =
     photons_sent_indices st @ filter nl xs \<and>
   quantum_out (foldl (send_step nl bits bases) st xs) =
     quantum_out st @ map (\<lambda>i. (bases ! i, bits ! i)) (filter nl xs) \<and>
   sender_bases_sent (foldl (send_step nl bits bases) st xs) =
     (\<lambda>i. if i \<in> set xs \<and> nl i then Some (bases ! i) else sender_bases_sent st i) \<and>
   sender_bits_sent (foldl (send_step nl bits bases) st xs) =
     (\<lambda>i. if i \<in> set xs \<and> nl i then Some (bits ! i) else sender_bits_sent st i)"
proof (induction xs arbitrary: st)
  case Nil
  show ?case by simp
next
  case (Cons x xs)
  show ?case
    by (auto simp: Cons.IH send_step_fields fun_eq_iff)
qed

lemma send_photons_indices:
  "photons_sent_indices (send_photons nl qubits) = filter nl [0..<length qubits]"
  by (simp add: send_photons_def foldl_send_step tx_init_def)

lemma send_photons_out:
  "quantum_out (send_photons nl qubits) =
     map (\<lambda>i. (map snd qubits ! i, map fst qubits ! i)) (filter nl [0..<length qubits])"
  by (simp add: send_photons_def foldl_send_step tx_init_def)

lemma send_photons_bases:
  "sender_bases_sent (send_photons nl qubits) i =
     (if i < length qubits \<and> nl i then Some (map snd qubits ! i) else None)"
  by (simp add: send_photons_def foldl_send_step tx_init_def)

lemma send_photons_bits:
  "sender_bits_sent (send_photons nl qubits) i =
     (if i < length qubits \<and> nl i then Some (map fst qubits ! i) else None)"
  by (simp add: send_photons_def foldl_send_step tx_init_def)

lemma receive_photons_eq:
  "receive_photons bc rb ps acc =
     acc @ map (\<lambda>p. measure_photon (bc (fst p)) (rb (fst p)) (snd p)) (enumerate (length acc) ps)"
proof (induction ps arbitrary: acc)
  case Nil
  show ?case by simp
next
  case (Cons p ps)
  show ?case by (simp add: Cons.IH)
qed

lemma receive_photons_length: "length (receive_photons bc rb ps []) = length ps"
  by (simp add: receive_photons_eq)

lemma receive_photons_nth:
  "j < length ps \<Longrightarrow> receive_photons bc rb ps [] ! j = measure_photon (bc j) (rb j) (ps ! j)"
  by (simp add: receive_photons_eq nth_enumerate_eq)

lemma sent_index_kept:
  assumes "j < length (photons_sent_indices (send_photons nl qubits))"
  shows "photons_sent_indices (send_photons nl qubits) ! j < length qubits \<and>
         nl (photons_sent_indices (send_photons nl qubits) ! j)"
proof -
  from assms have "photons_sent_indices (send_photons nl qubits) ! j
      \<in> set (filter nl [0..<length qubits])"
    unfolding send_photons_indices by (rule nth_mem)
  then show ?thesis by (simp add: send_photons_indices)
qed

lemma construct_receiver_key_matches:
  assumes "\<And>j. j \<in> set ms \<Longrightarrow> j < length received \<and> measured_bit (received ! j) = f j"
  shows "construct_receiver_key received (map int ms) acc = Inr (acc @ map f ms)"
  using assms
proof (induction ms arbitrary: acc)
  case Nil
  show ?case by simp
next
  case (Cons j ms)
  from Cons.prems have j: "j < length received" "measured_bit (received ! j) = f j"
    by simp_all
  have rest: "construct_receiver_key received (map int ms) (acc @ [f j]) =
      Inr ((acc @ [f j]) @ map f ms)"
    by (rule Cons.IH) (simp add: Cons.prems)
  from j rest show ?case by (simp add: py_index_def)
qed

lemma construct_sender_key_matches:
  assumes "\<And>j. j \<in> set ms \<Longrightarrow> sender_key_bit tx j = Some (f j)"
  shows "construct_sender_key tx ms = map f ms"
  using assms unfolding construct_sender_key_def
  by (induction ms) (simp_all add: List.map_filter_simps)

text \<open>
  C1. Sifting symmetry. For every list of prepared (bit, basis) pairs, every outcome of the
  loss draws, and every basis and bit the receiver draws for the photons it receives: when
  the receiver receives exactly the photons the sender sent, in order, and works from the
  match-index list the sender computed from the receiver's bases, the receiver's sifted key
  is built without an error and equals the sender's sifted key bit for bit (so the two have
  the same length).
\<close>

theorem sifting_symmetry:
  "construct_receiver_key
     (receive_photons basis_choice random_bit (quantum_out (send_photons not_lost qubits)) [])
     (map int
        (sift_local (send_photons not_lost qubits)
           (map bob_basis
              (receive_photons basis_choice random_bit
                 (quantum_out (send_photons not_lost qubits)) []))))
     [] =
   Inr (construct_sender_key (send_photons not_lost qubits)
          (sift_local (send_photons not_lost qubits)
             (map bob_basis
                (receive_photons basis_choice random_bit
                   (quantum_out (send_photons not_lost qubits)) []))))"
proof -
  define tx where "tx = send_photons not_lost qubits"
  define received where
    "received = receive_photons basis_choice random_bit (quantum_out tx) []"
  define idxs where "idxs = photons_sent_indices tx"
  define ms where "ms = sift_local tx (map bob_basis received)"
  define f where "f = (\<lambda>j. map fst qubits ! (idxs ! j))"
  have len_out: "length (quantum_out tx) = length idxs"
    by (simp add: tx_def idxs_def send_photons_out send_photons_indices)
  have len_rec: "length received = length idxs"
    by (simp add: received_def receive_photons_length len_out)
  have out_nth: "quantum_out tx ! j = (map snd qubits ! (idxs ! j), map fst qubits ! (idxs ! j))"
    if "j < length idxs" for j
    using that by (simp add: tx_def idxs_def send_photons_out send_photons_indices)
  have kept: "idxs ! j < length qubits \<and> not_lost (idxs ! j)" if "j < length idxs" for j
    using that sent_index_kept [of j not_lost qubits] by (simp add: tx_def idxs_def)
  have rec_nth: "received ! j =
      measure_photon (basis_choice j) (random_bit j)
        (map snd qubits ! (idxs ! j), map fst qubits ! (idxs ! j))"
    if "j < length idxs" for j
    using that by (simp add: received_def receive_photons_nth len_out out_nth)
  have in_ms: "j < length idxs \<and> bases_match tx (map bob_basis received) j" if "j \<in> set ms" for j
    using that by (auto simp: ms_def sift_local_def idxs_def)
  have match_bit: "measured_bit (received ! j) = f j" if "j \<in> set ms" for j
  proof -
    from in_ms [OF that] have j: "j < length idxs"
      and m: "bases_match tx (map bob_basis received) j" by simp_all
    from kept [OF j] have "sender_bases_sent tx (idxs ! j) = Some (map snd qubits ! (idxs ! j))"
      by (simp add: tx_def send_photons_bases)
    with m j have "map snd qubits ! (idxs ! j) = bob_basis (received ! j)"
      by (simp add: bases_match_def idxs_def [symmetric] len_rec)
    then show ?thesis
      by (simp add: rec_nth [OF j] measure_photon_def f_def)
  qed
  have sender_bit: "sender_key_bit tx j = Some (f j)" if "j \<in> set ms" for j
  proof -
    from in_ms [OF that] have j: "j < length idxs" by simp
    from kept [OF j] have "sender_bits_sent tx (idxs ! j) = Some (map fst qubits ! (idxs ! j))"
      by (simp add: tx_def send_photons_bits)
    with j show ?thesis by (simp add: sender_key_bit_def idxs_def [symmetric] f_def)
  qed
  have r: "construct_receiver_key received (map int ms) [] = Inr ([] @ map f ms)"
    by (rule construct_receiver_key_matches) (simp add: in_ms len_rec match_bit)
  have s: "construct_sender_key tx ms = map f ms"
    by (rule construct_sender_key_matches) (rule sender_bit)
  from r s show ?thesis
    by (simp add: tx_def received_def ms_def)
qed

theorem sifting_symmetry_witness:
  "construct_receiver_key
     (receive_photons (\<lambda>j. 1) (\<lambda>j. 0)
        (quantum_out (send_photons (\<lambda>i. i \<noteq> 1) [(1, 1), (0, 0), (1, 0), (0, 1)])) [])
     (map int
        (sift_local (send_photons (\<lambda>i. i \<noteq> 1) [(1, 1), (0, 0), (1, 0), (0, 1)])
           (map bob_basis
              (receive_photons (\<lambda>j. 1) (\<lambda>j. 0)
                 (quantum_out (send_photons (\<lambda>i. i \<noteq> 1) [(1, 1), (0, 0), (1, 0), (0, 1)]))
                 []))))
     [] = Inr [1, 0]"
proof -
  have "construct_sender_key (send_photons (\<lambda>i. i \<noteq> 1) [(1, 1), (0, 0), (1, 0), (0, 1)])
          (sift_local (send_photons (\<lambda>i. i \<noteq> 1) [(1, 1), (0, 0), (1, 0), (0, 1)])
             (map bob_basis
                (receive_photons (\<lambda>j. 1) (\<lambda>j. 0)
                   (quantum_out (send_photons (\<lambda>i. i \<noteq> 1) [(1, 1), (0, 0), (1, 0), (0, 1)]))
                   []))) = [1, 0]"
    by code_simp
  then show ?thesis
    using sifting_symmetry [of "\<lambda>j. 1" "\<lambda>j. 0" "\<lambda>i. i \<noteq> 1" "[(1, 1), (0, 0), (1, 0), (0, 1)]"]
    by simp
qed

section \<open>Properties of the verification phase\<close>

lemma mismatch_step_eq:
  "mismatch_step key payload p = Inr (if counts_as_mismatch key payload p then 1 else 0)"
  by (cases p)
    (auto simp: mismatch_step_def counts_as_mismatch_def compare_check_bit_def
      py_str_index_def py_int_char_def split: option.splits)

lemma count_loop_eq:
  "count_loop key payload ps m =
     Inr (m + length (filter (counts_as_mismatch key payload) ps))"
  by (induction ps arbitrary: m) (simp_all add: mismatch_step_eq)

lemma count_mismatches_eq:
  "count_mismatches key payload check =
     Inr (length (filter (counts_as_mismatch key payload) (enumerate 0 check)))"
  by (simp add: count_mismatches_def count_loop_eq)

lemma count_le: "length (filter (counts_as_mismatch key payload) (enumerate 0 check)) \<le> length check"
proof -
  have "length (filter (counts_as_mismatch key payload) (enumerate 0 check))
      \<le> length (enumerate 0 check)"
    by (rule length_filter_le)
  then show ?thesis by simp
qed

lemma enumerate_fst_less: "p \<in> set (enumerate 0 xs) \<Longrightarrow> fst p < length xs"
  by (cases p) (auto simp: in_set_enumerate_eq)

text \<open>
  C10. For a CHECK\_BITS payload that passed the length check, the mismatch count of DECIDE
  is always a number, never an exception, and at most the sample size. Round \<open>i\<close> adds
  exactly one for a payload character that is no decimal digit, and otherwise adds one
  exactly when the parsed value differs from the sender's sifted bit at the sampled index
  (or the sampled index lies outside the sifted key), and nothing when they agree.
\<close>

theorem count_mismatches_total:
  assumes "length payload = length check"
  shows "count_mismatches key payload check =
           Inr (length (filter (counts_as_mismatch key payload) (enumerate 0 check))) \<and>
         length (filter (counts_as_mismatch key payload) (enumerate 0 check)) \<le> length check \<and>
         (\<forall>i<length check.
            mismatch_step key payload (i, check ! i) =
              Inr (case py_int_char (payload ! i) of
                     Inl e \<Rightarrow> 1
                   | Inr v \<Rightarrow> if check ! i < length key \<and> key ! (check ! i) = v then 0 else 1))"
proof (intro conjI allI impI)
  show "count_mismatches key payload check =
      Inr (length (filter (counts_as_mismatch key payload) (enumerate 0 check)))"
    by (rule count_mismatches_eq)
  show "length (filter (counts_as_mismatch key payload) (enumerate 0 check)) \<le> length check"
    by (rule count_le)
next
  fix i assume "i < length check"
  with assms show "mismatch_step key payload (i, check ! i) =
      Inr (case py_int_char (payload ! i) of
             Inl e \<Rightarrow> 1
           | Inr v \<Rightarrow> if check ! i < length key \<and> key ! (check ! i) = v then 0 else 1)"
    by (auto simp: mismatch_step_eq counts_as_mismatch_def py_int_char_def split: option.splits)
qed

theorem count_mismatches_total_witness:
  "count_mismatches [1, 0, 1, 1] ''1x0'' [0, 2, 3] = Inr 2 \<and>
   mismatch_step [1, 0, 1, 1] ''1x0'' (0, 0) = Inr 0 \<and>
   mismatch_step [1, 0, 1, 1] ''1x0'' (1, 2) = Inr 1 \<and>
   mismatch_step [1, 0, 1, 1] ''1x0'' (2, 3) = Inr 1"
proof -
  have l: "length ''1x0'' = length [0, 2, 3 :: nat]"
    by simp
  have v: "length (filter (counts_as_mismatch [1, 0, 1, 1] ''1x0'') (enumerate 0 [0, 2, 3])) = 2"
    by code_simp
  have s: "mismatch_step [1, 0, 1, 1] ''1x0'' (0, 0) = Inr 0 \<and>
      mismatch_step [1, 0, 1, 1] ''1x0'' (1, 2) = Inr 1 \<and>
      mismatch_step [1, 0, 1, 1] ''1x0'' (2, 3) = Inr 1"
    by code_simp
  from count_mismatches_total [OF l, of "[1, 0, 1, 1]"]
  have "count_mismatches [1, 0, 1, 1] ''1x0'' [0, 2, 3] =
      Inr (length (filter (counts_as_mismatch [1, 0, 1, 1] ''1x0'') (enumerate 0 [0, 2, 3])))"
    by (rule conjunct1)
  with v s show ?thesis by simp
qed

text \<open>
  C5. When the CHECK\_BITS payload is not as long as the list of check indices, the sender
  raises the length-mismatch error before any bit is compared: the role ends with that
  error as its status, an ABORT if the socket is open, and no key, whatever the threshold,
  the sifted key and the payload's characters are. When the lengths agree, the mismatch
  loop runs over the pairs of \<^verbatim>\<open>enumerate\<close>, and in every round the position at which
  the loop body reads the payload is the round's counter, which lies inside the payload:
  the read in the body of the \<^verbatim>\<open>try\<close> returns the character there and never raises
  IndexError, only a character that is no digit makes the body fail, and the round
  behaves as a round whose handler catches ValueError alone.
\<close>

theorem check_bits_length_guard:
  "(length payload \<noteq> length check \<longrightarrow>
      await_check_bits (Some ''CHECK_BITS'', payload) check =
        Inl (ValueError ''Check bits length mismatch'') \<and>
      sender_verification fdiv qber_threshold sha256 fallback sock_open key check key_length
          (Some ''CHECK_BITS'', payload) =
        \<lparr>sent = (if sock_open then [(''ABORT'', ''Sender Error'')] else []),
         status = Error (ValueError ''Check bits length mismatch''), returned = None\<rparr>) \<and>
   (length payload = length check \<longrightarrow>
      await_check_bits (Some ''CHECK_BITS'', payload) check = Inr payload \<and>
      count_mismatches key payload check = count_loop key payload (enumerate 0 check) 0 \<and>
      (\<forall>p\<in>set (enumerate 0 check).
         fst p < length payload \<and>
         py_str_index payload (fst p) = Inr (payload ! fst p) \<and>
         (\<forall>s. compare_check_bit (key ! snd p) payload (fst p) \<noteq> Inl (IndexError s)) \<and>
         compare_check_bit (key ! snd p) payload (fst p) =
           (case py_int_char (payload ! fst p) of
              Inl e \<Rightarrow> Inl e
            | Inr v \<Rightarrow> Inr (if key ! snd p \<noteq> v then 1 else 0)) \<and>
         mismatch_step key payload p =
           (if snd p < length key then
              (case compare_check_bit (key ! snd p) payload (fst p) of
                 Inr d \<Rightarrow> Inr d
               | Inl (ValueError s) \<Rightarrow> Inr 1
               | Inl e \<Rightarrow> Inl e)
            else Inr 1)))"
proof (intro conjI impI ballI allI)
  assume "length payload \<noteq> length check"
  then show "await_check_bits (Some ''CHECK_BITS'', payload) check =
      Inl (ValueError ''Check bits length mismatch'')"
    by (simp add: await_check_bits_def)
  then show "sender_verification fdiv qber_threshold sha256 fallback sock_open key check
        key_length (Some ''CHECK_BITS'', payload) =
      \<lparr>sent = (if sock_open then [(''ABORT'', ''Sender Error'')] else []),
       status = Error (ValueError ''Check bits length mismatch''), returned = None\<rparr>"
    by (simp add: sender_verification_def sender_handler_def)
next
  assume "length payload = length check"
  then show "await_check_bits (Some ''CHECK_BITS'', payload) check = Inr payload"
    by (simp add: await_check_bits_def)
next
  show "count_mismatches key payload check = count_loop key payload (enumerate 0 check) 0"
    by (simp add: count_mismatches_def)
next
  fix p
  assume len: "length payload = length check" and p: "p \<in> set (enumerate 0 check)"
  from p have "fst p < length check" by (rule enumerate_fst_less)
  with len show inside: "fst p < length payload" by simp
  then show read: "py_str_index payload (fst p) = Inr (payload ! fst p)"
    by (simp add: py_str_index_def)
  then show body: "compare_check_bit (key ! snd p) payload (fst p) =
      (case py_int_char (payload ! fst p) of
         Inl e \<Rightarrow> Inl e
       | Inr v \<Rightarrow> Inr (if key ! snd p \<noteq> v then 1 else 0))"
    by (simp add: compare_check_bit_def)
  then show "compare_check_bit (key ! snd p) payload (fst p) \<noteq> Inl (IndexError s)" for s
    by (simp add: py_int_char_def split: option.splits)
  from body show "mismatch_step key payload p =
      (if snd p < length key then
         (case compare_check_bit (key ! snd p) payload (fst p) of
            Inr d \<Rightarrow> Inr d
          | Inl (ValueError s) \<Rightarrow> Inr 1
          | Inl e \<Rightarrow> Inl e)
       else Inr 1)"
    by (cases p) (simp add: mismatch_step_def py_int_char_def split: option.splits)
qed

theorem check_bits_length_guard_witness:
  "await_check_bits (Some ''CHECK_BITS'', ''10'') [0, 2, 3] =
     Inl (ValueError ''Check bits length mismatch'') \<and>
   sender_verification (\<lambda>m n. of_nat m / of_nat n :: rat) (1 / 4) (\<lambda>s. []) 5 True
       [1, 0, 1, 1] [0, 2, 3] 1 (Some ''CHECK_BITS'', ''10'') =
     \<lparr>sent = [(''ABORT'', ''Sender Error'')],
      status = Error (ValueError ''Check bits length mismatch''), returned = None\<rparr> \<and>
   await_check_bits (Some ''CHECK_BITS'', ''1x0'') [0, 2, 3] = Inr ''1x0'' \<and>
   py_str_index ''1x0'' 2 = Inr CHR ''0'' \<and>
   compare_check_bit ([1, 0, 1, 1] ! 3) ''1x0'' 2 = Inr 1 \<and>
   mismatch_step [1, 0, 1, 1] ''1x0'' (2, 3) = Inr 1 \<and>
   compare_check_bit ([1, 0, 1, 1] ! 2) ''1x0'' 1 =
     Inl (ValueError ''invalid literal for int() with base 10'')"
proof -
  have a: "length ''10'' \<noteq> length [0, 2, 3 :: nat]"
    by simp
  have b: "length ''1x0'' = length [0, 2, 3 :: nat]"
    by simp
  have m: "(2, 3) \<in> set (enumerate 0 [0, 2, 3 :: nat])"
    by simp
  from check_bits_length_guard [of "''10''" "[0, 2, 3]" "\<lambda>m n. of_nat m / of_nat n :: rat"
      "1 / 4" "\<lambda>s. []" 5 True "[1, 0, 1, 1]" 1] a
  have r1: "await_check_bits (Some ''CHECK_BITS'', ''10'') [0, 2, 3] =
        Inl (ValueError ''Check bits length mismatch'') \<and>
      sender_verification (\<lambda>m n. of_nat m / of_nat n :: rat) (1 / 4) (\<lambda>s. []) 5 True
          [1, 0, 1, 1] [0, 2, 3] 1 (Some ''CHECK_BITS'', ''10'') =
        \<lparr>sent = [(''ABORT'', ''Sender Error'')],
         status = Error (ValueError ''Check bits length mismatch''), returned = None\<rparr>"
    by simp
  from check_bits_length_guard [of "''1x0''" "[0, 2, 3]" "\<lambda>m n. of_nat m / of_nat n :: rat"
      "1 / 4" "\<lambda>s. []" 5 True "[1, 0, 1, 1]" 1] b
  have r2: "await_check_bits (Some ''CHECK_BITS'', ''1x0'') [0, 2, 3] = Inr ''1x0'' \<and>
      (\<forall>p\<in>set (enumerate 0 [0, 2, 3 :: nat]).
         py_str_index ''1x0'' (fst p) = Inr (''1x0'' ! fst p))"
    by blast
  then have "py_str_index ''1x0'' (fst (2 :: nat, 3 :: nat)) = Inr (''1x0'' ! fst (2 :: nat, 3 :: nat))"
    using m by blast
  then have r3: "py_str_index ''1x0'' 2 = Inr CHR ''0''"
    by simp
  have e: "compare_check_bit ([1, 0, 1, 1] ! 3) ''1x0'' 2 = Inr 1 \<and>
      mismatch_step [1, 0, 1, 1] ''1x0'' (2, 3) = Inr 1 \<and>
      compare_check_bit ([1, 0, 1, 1] ! 2) ''1x0'' 1 =
        Inl (ValueError ''invalid literal for int() with base 10'')"
    by code_simp
  from r1 r2 r3 e show ?thesis by blast
qed

text \<open>
  C3. DECIDE computes the mismatch count \<open>m\<close>, takes \<open>m / sample_size\<close> as the error rate,
  and sends ABORT (status QBER Fail, no key) if and only if that rate is strictly greater
  than the threshold; otherwise CONFIRM\_KEY is sent. In particular a rate exactly equal
  to the threshold is accepted.
\<close>

theorem qber_decision_boundary:
  "\<exists>m out.
     count_mismatches key payload check = Inr m \<and>
     sender_decide fdiv qber_threshold sha256 fallback key check key_length payload = Inr out \<and>
     (check \<noteq> [] \<longrightarrow> qber_of fdiv m check = fdiv m (length check)) \<and>
     ((sent out = [(''ABORT'', ''QBER_HIGH'')] \<and> status out = QBER_Fail \<and> returned out = None)
        \<longleftrightarrow> qber_of fdiv m check > qber_threshold) \<and>
     (\<not> qber_of fdiv m check > qber_threshold \<longrightarrow> sent out = [(''CONFIRM_KEY'', ''OK'')]) \<and>
     (qber_of fdiv m check = qber_threshold \<longrightarrow> sent out = [(''CONFIRM_KEY'', ''OK'')])"
proof -
  define m where "m = length (filter (counts_as_mismatch key payload) (enumerate 0 check))"
  have cm: "count_mismatches key payload check = Inr m"
    by (simp add: m_def count_mismatches_eq)
  show ?thesis
  proof (cases "qber_of fdiv m check > qber_threshold")
    case True
    then have "sender_decide fdiv qber_threshold sha256 fallback key check key_length payload =
        Inr \<lparr>sent = [(''ABORT'', ''QBER_HIGH'')], status = QBER_Fail, returned = None\<rparr>"
      by (simp add: sender_decide_def cm)
    with True cm show ?thesis
      by (auto simp: qber_of_def)
  next
    case False
    obtain st r where f: "sender_final_key sha256 fallback key check key_length = (st, r)"
      by (cases "sender_final_key sha256 fallback key check key_length")
    from False have "sender_decide fdiv qber_threshold sha256 fallback key check key_length payload =
        Inr \<lparr>sent = [(''CONFIRM_KEY'', ''OK'')], status = st, returned = r\<rparr>"
      by (simp add: sender_decide_def cm f)
    with False cm show ?thesis
      by (auto simp: qber_of_def)
  qed
qed

theorem qber_decision_boundary_witness:
  "count_mismatches [1, 0, 1, 1, 0, 1, 0, 0] ''1110'' [0, 2, 4, 6] = Inr 1 \<and>
   qber_of (\<lambda>m n. of_nat m / of_nat n :: rat) 1 [0, 2, 4, 6 :: nat] = 1 / 4 \<and>
   sender_decide (\<lambda>m n. of_nat m / of_nat n :: rat) (1 / 4) (\<lambda>s. []) 5
       [1, 0, 1, 1, 0, 1, 0, 0] [0, 2, 4, 6] 2 ''1110'' =
     Inr \<lparr>sent = [(''CONFIRM_KEY'', ''OK'')], status = Success, returned = Some (5, [0, 1])\<rparr> \<and>
   sender_decide (\<lambda>m n. of_nat m / of_nat n :: rat) (1 / 5) (\<lambda>s. []) 5
       [1, 0, 1, 1, 0, 1, 0, 0] [0, 2, 4, 6] 2 ''1110'' =
     Inr \<lparr>sent = [(''ABORT'', ''QBER_HIGH'')], status = QBER_Fail, returned = None\<rparr>"
proof -
  have c: "count_mismatches [1, 0, 1, 1, 0, 1, 0, 0] ''1110'' [0, 2, 4, 6] = Inr 1"
    by code_simp
  have q: "qber_of (\<lambda>m n. of_nat m / of_nat n :: rat) 1 [0, 2, 4, 6 :: nat] = 1 / 4"
    by (simp add: qber_of_def)
  have d1: "sender_decide (\<lambda>m n. of_nat m / of_nat n :: rat) (1 / 4) (\<lambda>s. []) 5
       [1, 0, 1, 1, 0, 1, 0, 0] [0, 2, 4, 6] 2 ''1110'' =
     Inr \<lparr>sent = [(''CONFIRM_KEY'', ''OK'')], status = Success, returned = Some (5, [0, 1])\<rparr>"
    by code_simp
  have d2: "sender_decide (\<lambda>m n. of_nat m / of_nat n :: rat) (1 / 5) (\<lambda>s. []) 5
       [1, 0, 1, 1, 0, 1, 0, 0] [0, 2, 4, 6] 2 ''1110'' =
     Inr \<lparr>sent = [(''ABORT'', ''QBER_HIGH'')], status = QBER_Fail, returned = None\<rparr>"
    by code_simp
  show ?thesis
    using qber_decision_boundary [of "[1, 0, 1, 1, 0, 1, 0, 0]" "''1110''" "[0, 2, 4, 6]"
        "\<lambda>m n. of_nat m / of_nat n :: rat" "1 / 4" "\<lambda>s. []" 5 2] c q d1 d2
    by blast
qed

section \<open>Properties of the sample sizing\<close>

lemma choose_check_len_cases:
  "choose_check_len key key_length =
     (if key = []
      then Inl (ValueError ''No matching bases found after sifting. Cannot perform QBER check.'')
      else if length key = 1 then Inl (ValueError ''Insufficient sifted bits for QBER check.'')
      else Inr (max 1 (min (int (length key) div 4) (key_length * 2))))"
proof (cases "key = []")
  case True
  then show ?thesis by (simp add: choose_check_len_def)
next
  case False
  then have pos: "0 < length key" by simp
  show ?thesis
  proof (cases "length key = 1")
    case True
    then show ?thesis using False by (simp add: choose_check_len_def Let_def)
  next
    case False
    with pos have "2 \<le> int (length key)" by linarith
    then have "\<not> int (length key) \<le> max 1 (min (int (length key) div 4) (key_length * 2))"
      by linarith
    with \<open>key \<noteq> []\<close> False show ?thesis
      by (simp add: choose_check_len_def Let_def)
  qed
qed

text \<open>
  C4, as the code has it. An empty sifted key aborts. A sifted key of one bit aborts with
  "insufficient sifted bits": its first size \<open>max(1, min(0, 2k)) = 1\<close> leaves no unchecked
  bit, and the second size is \<open>max(1, 1 // 2) = 1\<close>, not \<open>1 // 2 = 0\<close>. For two or more
  bits the size is \<open>max(1, min(sifted_len // 4, 2 * key_length))\<close>, it is below the
  length of the sifted key, and the proposed sample is the sorted list of what
  \<^verbatim>\<open>random.sample\<close> returns: when that is a list of that many distinct indices of the
  sifted key, so is the proposal, in ascending order.
\<close>

theorem propose_verification_spec:
  "(key = [] \<longrightarrow>
      propose_verification random_sample key key_length =
        Inl (ValueError ''No matching bases found after sifting. Cannot perform QBER check.'')) \<and>
   (length key = 1 \<longrightarrow>
      propose_verification random_sample key key_length =
        Inl (ValueError ''Insufficient sifted bits for QBER check.'')) \<and>
   (2 \<le> length key \<longrightarrow>
      choose_check_len key key_length =
        Inr (max 1 (min (int (length key) div 4) (2 * key_length))) \<and>
      propose_verification random_sample key key_length =
        Inr (sort (random_sample (length key)
                     (nat (max 1 (min (int (length key) div 4) (2 * key_length)))))) \<and>
      (length (random_sample (length key)
                 (nat (max 1 (min (int (length key) div 4) (2 * key_length))))) =
         nat (max 1 (min (int (length key) div 4) (2 * key_length))) \<and>
       distinct (random_sample (length key)
                   (nat (max 1 (min (int (length key) div 4) (2 * key_length))))) \<and>
       set (random_sample (length key)
              (nat (max 1 (min (int (length key) div 4) (2 * key_length))))) \<subseteq> {..<length key}
       \<longrightarrow>
       (\<exists>xs. propose_verification random_sample key key_length = Inr xs \<and>
             sorted xs \<and> distinct xs \<and> set xs \<subseteq> {..<length key} \<and>
             int (length xs) = max 1 (min (int (length key) div 4) (2 * key_length)) \<and>
             length xs < length key)))"
proof -
  have c: "key_length * 2 = 2 * key_length" by simp
  have lt: "nat (max 1 (min (int (length key) div 4) (2 * key_length))) < length key"
    if "2 \<le> length key"
    using that by linarith
  show ?thesis
    using lt
    by (auto simp: propose_verification_def choose_check_len_cases c)
qed

theorem propose_verification_witness:
  "propose_verification (\<lambda>n k. map (\<lambda>i. n - 1 - 2 * i) [0..<k]) [1, 0, 1, 1, 0, 1, 0, 0] 2 =
     Inr [5, 7] \<and>
   propose_verification (\<lambda>n k. map (\<lambda>i. n - 1 - 2 * i) [0..<k]) [1] 2 =
     Inl (ValueError ''Insufficient sifted bits for QBER check.'') \<and>
   propose_verification (\<lambda>n k. map (\<lambda>i. n - 1 - 2 * i) [0..<k]) [] 2 =
     Inl (ValueError ''No matching bases found after sifting. Cannot perform QBER check.'')"
proof -
  have e: "propose_verification (\<lambda>n k. map (\<lambda>i. n - 1 - 2 * i) [0..<k])
      [1, 0, 1, 1, 0, 1, 0, 0] 2 = Inr [5, 7]"
    by code_simp
  have l: "length [1 :: nat] = 1"
    by simp
  from propose_verification_spec [of "[1]" "\<lambda>n k. map (\<lambda>i. n - 1 - 2 * i) [0..<k]" 2] l
  have one: "propose_verification (\<lambda>n k. map (\<lambda>i. n - 1 - 2 * i) [0..<k]) [1] 2 =
      Inl (ValueError ''Insufficient sifted bits for QBER check.'')"
    by blast
  from propose_verification_spec [of "[]" "\<lambda>n k. map (\<lambda>i. n - 1 - 2 * i) [0..<k]" 2]
  have none: "propose_verification (\<lambda>n k. map (\<lambda>i. n - 1 - 2 * i) [0..<k]) [] 2 =
      Inl (ValueError ''No matching bases found after sifting. Cannot perform QBER check.'')"
    by blast
  from e one none show ?thesis by simp
qed

text \<open>
  The sizing as the specification words it differs from the code on a sifted key of one
  bit: there the specification's second size is \<open>1 // 2 = 0\<close>, which leaves a bit
  unchecked, so its sizing proposes an empty sample, whereas the code aborts.
\<close>

theorem propose_verification_counterexample:
  "choose_check_len [1] 16 = Inl (ValueError ''Insufficient sifted bits for QBER check.'') \<and>
   spec_check_len [1] 16 = Inr 0"
  by (simp add: choose_check_len_def spec_check_len_def)

section \<open>Properties of the final key\<close>

lemma map_nth_filter_nths: "map ((!) xs) (filter P [0..<length xs]) = nths xs {i. P i}"
proof (induction xs rule: rev_induct)
  case Nil
  show ?case by simp
next
  case (snoc x xs)
  have "map ((!) (xs @ [x])) (filter P [0..<length xs]) = map ((!) xs) (filter P [0..<length xs])"
    by (rule map_cong) (auto simp: nth_append)
  then show ?case
    by (simp add: nths_append snoc.IH)
qed

lemma length_filter_notin:
  assumes "distinct check" and "\<forall>c\<in>set check. c < n"
  shows "length (filter (\<lambda>i. i \<notin> set check) [0..<n]) = n - length check"
proof -
  have "{i. i \<in> set check} \<inter> set [0..<n] = set check"
    using assms(2) by auto
  then have "length (filter (\<lambda>i. i \<in> set check) [0..<n]) = card (set check)"
    by (simp add: distinct_length_filter)
  then have "length (filter (\<lambda>i. i \<in> set check) [0..<n]) = length check"
    using assms(1) by (simp add: distinct_card)
  moreover have "length (filter (\<lambda>i. i \<in> set check) [0..<n]) +
      length (filter (\<lambda>i. \<not> i \<in> set check) [0..<n]) = length [0..<n]"
    by (rule sum_length_filter_compl)
  ultimately show ?thesis by simp
qed

lemma sender_final_key_bits_nths:
  "sender_final_key_bits key check = nths key {i. i \<notin> set check}"
  unfolding sender_final_key_bits_def by (rule map_nth_filter_nths)

lemma receiver_final_key_bits_nths:
  "receiver_final_key_bits key rcheck = nths key {i. int i \<notin> set rcheck}"
  unfolding receiver_final_key_bits_def by (rule map_nth_filter_nths)

lemma receiver_as_sender:
  assumes "\<forall>c\<in>set rcheck. 0 \<le> c"
  shows "receiver_final_key_bits key rcheck = sender_final_key_bits key (map nat rcheck)"
proof -
  have "int i \<in> set rcheck \<longleftrightarrow> i \<in> set (map nat rcheck)" for i
  proof
    assume "int i \<in> set rcheck"
    then have "nat (int i) \<in> nat ` set rcheck" by (rule imageI)
    then show "i \<in> set (map nat rcheck)" by simp
  next
    assume "i \<in> set (map nat rcheck)"
    then obtain c where c: "c \<in> set rcheck" "i = nat c" by auto
    with assms have "int i = c" by simp
    with c show "int i \<in> set rcheck" by simp
  qed
  then show ?thesis
    by (simp add: receiver_final_key_bits_def sender_final_key_bits_def)
qed

lemma sender_final_length:
  assumes "distinct check" and "\<forall>c\<in>set check. c < length key"
  shows "length (sender_final_key_bits key check) = length key - length check"
  using assms by (simp add: sender_final_key_bits_def length_filter_notin)

lemma receiver_final_length:
  assumes "distinct rcheck" and "\<forall>c\<in>set rcheck. 0 \<le> c \<and> c < int (length key)"
  shows "length (receiver_final_key_bits key rcheck) = length key - length rcheck"
proof -
  from assms(2) have nonneg: "\<forall>c\<in>set rcheck. 0 \<le> c" by simp
  have "inj_on nat (set rcheck)"
    by (rule inj_onI) (use nonneg in \<open>simp add: eq_nat_nat_iff\<close>)
  with assms(1) have d: "distinct (map nat rcheck)"
    by (simp add: distinct_map)
  from assms(2) have r: "\<forall>c\<in>set (map nat rcheck). c < length key" by auto
  from sender_final_length [OF d r] show ?thesis
    by (simp add: receiver_as_sender [OF nonneg])
qed

text \<open>
  C2, for a desired key length that is not negative. On either side, with a sample of
  distinct indices inside the sifted key, the bits left after verification are the sifted
  key without exactly the sampled positions, in order, so there are
  \<open>len(sifted_key) - len(sample)\<close> of them. If these are fewer than the desired key
  length the role ends as Key Too Short with no key; otherwise it returns the first
  \<open>key_length\<close> of them, a key of exactly the desired length, with the seed derived from
  it.
\<close>

theorem final_key_construction:
  assumes "distinct check" and "\<forall>c\<in>set check. c < length skey"
    and "distinct rcheck" and "\<forall>c\<in>set rcheck. 0 \<le> c \<and> c < int (length rkey)"
    and "0 \<le> key_length"
  shows
    "sender_final_key_bits skey check = nths skey {i. i \<notin> set check} \<and>
     length (sender_final_key_bits skey check) = length skey - length check \<and>
     (int (length skey - length check) < key_length \<longrightarrow>
        sender_final_key sha256 fallback skey check key_length = (Key_Too_Short, None)) \<and>
     (key_length \<le> int (length skey - length check) \<longrightarrow>
        sender_final_key sha256 fallback skey check key_length =
          (Success,
           Some (derive_seed_from_key sha256 fallback
                   (take (nat key_length) (nths skey {i. i \<notin> set check})),
                 take (nat key_length) (nths skey {i. i \<notin> set check}))) \<and>
        int (length (take (nat key_length) (nths skey {i. i \<notin> set check}))) = key_length) \<and>
     receiver_final_key_bits rkey rcheck = nths rkey {i. int i \<notin> set rcheck} \<and>
     length (receiver_final_key_bits rkey rcheck) = length rkey - length rcheck \<and>
     (int (length rkey - length rcheck) < key_length \<longrightarrow>
        receiver_final_key sha256 fallback rkey rcheck key_length = (Key_Too_Short, None)) \<and>
     (key_length \<le> int (length rkey - length rcheck) \<longrightarrow>
        receiver_final_key sha256 fallback rkey rcheck key_length =
          (Success,
           Some (derive_seed_from_key sha256 fallback
                   (take (nat key_length) (nths rkey {i. int i \<notin> set rcheck})),
                 take (nat key_length) (nths rkey {i. int i \<notin> set rcheck}))) \<and>
        int (length (take (nat key_length) (nths rkey {i. int i \<notin> set rcheck}))) = key_length)"
proof -
  have sl: "length (sender_final_key_bits skey check) = length skey - length check"
    using assms(1,2) by (rule sender_final_length)
  have rl: "length (receiver_final_key_bits rkey rcheck) = length rkey - length rcheck"
    using assms(3,4) by (rule receiver_final_length)
  have s1: "sender_final_key sha256 fallback skey check key_length = (Key_Too_Short, None)"
    if "int (length skey - length check) < key_length"
    using that sl by (simp add: sender_final_key_def)
  have r1: "receiver_final_key sha256 fallback rkey rcheck key_length = (Key_Too_Short, None)"
    if "int (length rkey - length rcheck) < key_length"
    using that rl by (simp add: receiver_final_key_def)
  have s2: "sender_final_key sha256 fallback skey check key_length =
          (Success,
           Some (derive_seed_from_key sha256 fallback
                   (take (nat key_length) (nths skey {i. i \<notin> set check})),
                 take (nat key_length) (nths skey {i. i \<notin> set check})))"
    if "key_length \<le> int (length skey - length check)"
    using that sl assms(5)
    by (simp add: sender_final_key_def Let_def py_slice_to_def sender_final_key_bits_nths [symmetric])
  have r2: "receiver_final_key sha256 fallback rkey rcheck key_length =
          (Success,
           Some (derive_seed_from_key sha256 fallback
                   (take (nat key_length) (nths rkey {i. int i \<notin> set rcheck})),
                 take (nat key_length) (nths rkey {i. int i \<notin> set rcheck})))"
    if "key_length \<le> int (length rkey - length rcheck)"
    using that rl assms(5)
    by (simp add: receiver_final_key_def Let_def py_slice_to_def receiver_final_key_bits_nths [symmetric])
  have s3: "int (length (take (nat key_length) (nths skey {i. i \<notin> set check}))) = key_length"
    if "key_length \<le> int (length skey - length check)"
    using that sl assms(5) by (simp add: sender_final_key_bits_nths [symmetric])
  have r3: "int (length (take (nat key_length) (nths rkey {i. int i \<notin> set rcheck}))) = key_length"
    if "key_length \<le> int (length rkey - length rcheck)"
    using that rl assms(5) by (simp add: receiver_final_key_bits_nths [symmetric])
  show ?thesis
    using sl rl s1 r1 s2 r2 s3 r3
    by (simp add: sender_final_key_bits_nths receiver_final_key_bits_nths)
qed

theorem final_key_construction_witness:
  "sender_final_key_bits [1, 0, 1, 1, 0, 1, 0, 0] [0, 2, 4, 6] = [0, 1, 1, 0] \<and>
   length (sender_final_key_bits [1, 0, 1, 1, 0, 1, 0, 0] [0, 2, 4, 6]) =
     length [1, 0, 1, 1, 0, 1, 0, 0 :: nat] - length [0, 2, 4, 6 :: nat] \<and>
   sender_final_key (\<lambda>s. []) 5 [1, 0, 1, 1, 0, 1, 0, 0] [0, 2, 4, 6] 2 =
     (Success, Some (5, [0, 1])) \<and>
   receiver_final_key (\<lambda>s. []) 5 [1, 0, 1, 1, 0, 1, 0, 0] [0, 2, 4, 6] 2 =
     (Success, Some (5, [0, 1])) \<and>
   sender_final_key (\<lambda>s. []) 5 [1, 0, 1, 1, 0, 1, 0, 0] [0, 2, 4, 6] 5 = (Key_Too_Short, None)"
proof -
  have h1: "distinct [0, 2, 4, 6 :: nat]"
    by simp
  have h2: "\<forall>c\<in>set [0, 2, 4, 6 :: nat]. c < length [1, 0, 1, 1, 0, 1, 0, 0 :: nat]"
    by simp
  have h3: "distinct [0, 2, 4, 6 :: int]"
    by simp
  have h4: "\<forall>c\<in>set [0, 2, 4, 6 :: int]. 0 \<le> c \<and> c < int (length [1, 0, 1, 1, 0, 1, 0, 0 :: nat])"
    by simp
  have h5: "(0 :: int) \<le> 2"
    by simp
  from final_key_construction [OF h1 h2 h3 h4 h5, of "\<lambda>s. []" 5]
  have len: "length (sender_final_key_bits [1, 0, 1, 1, 0, 1, 0, 0] [0, 2, 4, 6]) =
      length [1, 0, 1, 1, 0, 1, 0, 0 :: nat] - length [0, 2, 4, 6 :: nat]"
    by blast
  have e1: "sender_final_key_bits [1, 0, 1, 1, 0, 1, 0, 0] [0, 2, 4, 6] = [0, 1, 1, 0]"
    by code_simp
  have e2: "sender_final_key (\<lambda>s. []) 5 [1, 0, 1, 1, 0, 1, 0, 0] [0, 2, 4, 6] 2 =
      (Success, Some (5, [0, 1]))"
    by code_simp
  have e3: "receiver_final_key (\<lambda>s. []) 5 [1, 0, 1, 1, 0, 1, 0, 0] [0, 2, 4, 6] 2 =
      (Success, Some (5, [0, 1]))"
    by code_simp
  have e4: "sender_final_key (\<lambda>s. []) 5 [1, 0, 1, 1, 0, 1, 0, 0] [0, 2, 4, 6] 5 =
      (Key_Too_Short, None)"
    by code_simp
  from len e1 e2 e3 e4 show ?thesis by blast
qed

text \<open>
  A negative desired key length passes the length test, and the slice
  \<^verbatim>\<open>final_key_bits[:key_length]\<close> then drops bits from the end: with \<open>key_length = -1\<close>
  the returned key has two bits.
\<close>

theorem final_key_construction_counterexample:
  "sender_final_key (\<lambda>s. []) 0 [1, 0, 1, 1] [1] (- 1) = (Success, Some (0, [1, 1])) \<and>
   receiver_final_key (\<lambda>s. []) 0 [1, 0, 1, 1] [1] (- 1) = (Success, Some (0, [1, 1])) \<and>
   int (length [1, 1 :: nat]) \<noteq> - 1"
  by code_simp

section \<open>Properties of the receiver's check bits\<close>

lemma py_str_bit: "b \<le> 1 \<Longrightarrow> py_str b = [digit_char b]"
  by (simp add: py_str.simps)

text \<open>
  C6. For a non-empty list of check indices the receiver fails, with the IndexError for
  invalid check indices, if and only if some index is negative or not below the length of
  its sifted key. Otherwise it answers with the concatenation of \<^verbatim>\<open>str\<close> of its sifted
  bits at the requested indices, in the requested order; since the sifted bits are 0 or 1,
  that is a string with one character per index, the \<open>j\<close>-th being the bit at the \<open>j\<close>-th
  index.
\<close>

theorem receiver_check_bits_spec:
  assumes "idxs \<noteq> []"
  shows
    "((\<exists>e. receiver_check_bits key idxs = Inl e) \<longleftrightarrow>
        (\<exists>i\<in>set idxs. i < 0 \<or> int (length key) \<le> i)) \<and>
     ((\<exists>i\<in>set idxs. i < 0 \<or> int (length key) \<le> i) \<longrightarrow>
        receiver_check_bits key idxs = Inl (IndexError ''Invalid check indices received'')) \<and>
     (\<not> (\<exists>i\<in>set idxs. i < 0 \<or> int (length key) \<le> i) \<longrightarrow>
        receiver_check_bits key idxs = Inr (concat (map (\<lambda>i. py_str (key ! nat i)) idxs)) \<and>
        ((\<forall>b\<in>set key. b \<le> 1) \<longrightarrow>
           receiver_check_bits key idxs = Inr (map (\<lambda>i. digit_char (key ! nat i)) idxs) \<and>
           (\<forall>j<length idxs.
              map (\<lambda>i. digit_char (key ! nat i)) idxs ! j = digit_char (key ! nat (idxs ! j)))))"
proof -
  have bad: "receiver_check_bits key idxs = Inl (IndexError ''Invalid check indices received'')"
    if "\<exists>i\<in>set idxs. i < 0 \<or> int (length key) \<le> i"
    using that assms by (auto simp: receiver_check_bits_def list_ex_iff)
  have good: "receiver_check_bits key idxs = Inr (concat (map (\<lambda>i. py_str (key ! nat i)) idxs))"
    if "\<not> (\<exists>i\<in>set idxs. i < 0 \<or> int (length key) \<le> i)"
    using that assms by (auto simp: receiver_check_bits_def list_ex_iff)
  have bits: "concat (map (\<lambda>i. py_str (key ! nat i)) idxs) =
      map (\<lambda>i. digit_char (key ! nat i)) idxs"
    if "\<not> (\<exists>i\<in>set idxs. i < 0 \<or> int (length key) \<le> i)" and "\<forall>b\<in>set key. b \<le> 1"
  proof -
    have "py_str (key ! nat i) = [digit_char (key ! nat i)]" if "i \<in> set idxs" for i
    proof -
      from that \<open>\<not> (\<exists>i\<in>set idxs. i < 0 \<or> int (length key) \<le> i)\<close>
      have "nat i < length key" by auto
      then have "key ! nat i \<in> set key" by (rule nth_mem)
      with \<open>\<forall>b\<in>set key. b \<le> 1\<close> show ?thesis by (simp add: py_str_bit)
    qed
    then have "map (\<lambda>i. py_str (key ! nat i)) idxs = map (\<lambda>i. [digit_char (key ! nat i)]) idxs"
      by (intro map_cong) simp_all
    then have "concat (map (\<lambda>i. py_str (key ! nat i)) idxs) =
        concat (map (\<lambda>i. [digit_char (key ! nat i)]) idxs)"
      by (rule arg_cong)
    also have "\<dots> = map (\<lambda>i. digit_char (key ! nat i)) idxs"
      by simp
    finally show ?thesis .
  qed
  show ?thesis
  proof (cases "\<exists>i\<in>set idxs. i < 0 \<or> int (length key) \<le> i")
    case True
    from bad [OF True] True show ?thesis by simp
  next
    case False
    from good [OF False] bits [OF False] False show ?thesis by simp
  qed
qed

theorem receiver_check_bits_witness:
  "receiver_check_bits [1, 0, 1, 1] [3, 1, 0] = Inr ''101'' \<and>
   receiver_check_bits [1, 0, 1, 1] [3, 4] = Inl (IndexError ''Invalid check indices received'') \<and>
   receiver_check_bits [1, 0, 1, 1] [- 1, 2] = Inl (IndexError ''Invalid check indices received'')"
proof -
  have n1: "[3, 1, 0 :: int] \<noteq> []" and n2: "[3, 4 :: int] \<noteq> []" and n3: "[- 1, 2 :: int] \<noteq> []"
    by simp_all
  have b2: "\<exists>i\<in>set [3, 4 :: int]. i < 0 \<or> int (length [1, 0, 1, 1 :: nat]) \<le> i"
    by simp
  have b3: "\<exists>i\<in>set [- 1, 2 :: int]. i < 0 \<or> int (length [1, 0, 1, 1 :: nat]) \<le> i"
    by simp
  have g1: "\<not> (\<exists>i\<in>set [3, 1, 0 :: int]. i < 0 \<or> int (length [1, 0, 1, 1 :: nat]) \<le> i)"
    by simp
  have bits: "\<forall>b\<in>set [1, 0, 1, 1 :: nat]. b \<le> 1"
    by simp
  from receiver_check_bits_spec [OF n1, of "[1, 0, 1, 1]"] g1 bits
  have "receiver_check_bits [1, 0, 1, 1] [3, 1, 0] =
      Inr (map (\<lambda>i. digit_char ([1, 0, 1, 1] ! nat i)) [3, 1, 0])"
    by blast
  then have r1: "receiver_check_bits [1, 0, 1, 1] [3, 1, 0] = Inr ''101''"
    by (simp add: digit_char_def)
  from receiver_check_bits_spec [OF n2, of "[1, 0, 1, 1]"] b2
  have r2: "receiver_check_bits [1, 0, 1, 1] [3, 4] =
      Inl (IndexError ''Invalid check indices received'')"
    by blast
  from receiver_check_bits_spec [OF n3, of "[1, 0, 1, 1]"] b3
  have r3: "receiver_check_bits [1, 0, 1, 1] [- 1, 2] =
      Inl (IndexError ''Invalid check indices received'')"
    by blast
  from r1 r2 r3 show ?thesis by simp
qed

end
